theory Spec2Isabelle
  imports Main
begin

section \<open>csbench amalgamation script (scripts/amalgamated.py)\<close>

text \<open>
  The script reads eight source files, takes the leading comment block of the header as
  the preamble, filters every file down to its core and writes the concatenation to
  \<^verbatim>\<open>csbench_amalgamated.c\<close>.

  A Python \<^verbatim>\<open>str\<close> is modelled by its UTF-8 encoding, a \<^typ>\<open>string\<close> of bytes:
  the files are opened with \<^verbatim>\<open>encoding="utf8"\<close>, the encoding is injective, and
  \<^verbatim>\<open>startswith\<close>, \<^verbatim>\<open>in\<close> and concatenation give the same answers on the
  encoded bytes as on the code points (the needles of the script are ASCII). Contents that
  are not valid UTF-8 make the loader raise \<^verbatim>\<open>UnicodeDecodeError\<close>.
\<close>

subsection \<open>Exceptions\<close>

datatype error =
    FileNotFoundError string
  | UnicodeDecodeError
  | KeyError string
  | IndexError

text \<open>Sequencing of steps that may raise: the first exception ends the evaluation.\<close>

definition and_then :: "error + 'a \<Rightarrow> ('a \<Rightarrow> error + 'b) \<Rightarrow> error + 'b" where
  "and_then m f = (case m of Inl e \<Rightarrow> Inl e | Inr v \<Rightarrow> f v)"

subsection \<open>String operations of the Python library\<close>

text \<open>\<^verbatim>\<open>it.startswith(p)\<close>\<close>

fun startswith :: "string \<Rightarrow> string \<Rightarrow> bool" where
  "startswith it [] = True"
| "startswith [] (p # ps) = False"
| "startswith (c # cs) (p # ps) = (c = p \<and> startswith cs ps)"

text \<open>\<^verbatim>\<open>sub in it\<close>: the substring test.\<close>

fun contains :: "string \<Rightarrow> string \<Rightarrow> bool" where
  "contains sub [] = (sub = [])"
| "contains sub (c # cs) = (startswith (c # cs) sub \<or> contains sub cs)"

text \<open>
  \<^verbatim>\<open>it.isspace()\<close>: true when the string has at least one character and all of them
  are whitespace. Python's whitespace characters are U+0009..U+000D, U+001C..U+001F,
  U+0020, U+0085, U+00A0, U+1680, U+2000..U+200A, U+2028, U+2029, U+202F, U+205F and
  U+3000; \<open>all_space\<close> reads them in their UTF-8 form.
\<close>

definition ascii_space :: "char \<Rightarrow> bool" where
  "ascii_space c =
     (let n = (of_char c :: nat) in (9 \<le> n \<and> n \<le> 13) \<or> (28 \<le> n \<and> n \<le> 32))"

definition general_punct_space :: "char \<Rightarrow> char \<Rightarrow> bool" where
  \<comment> \<open>the second and third byte of a whitespace character that starts with 0xE2\<close>
  "general_punct_space d e =
     (let m = (of_char e :: nat) in
        (d = CHR 0x80 \<and> ((128 \<le> m \<and> m \<le> 138) \<or> m = 168 \<or> m = 169 \<or> m = 175))
      \<or> (d = CHR 0x81 \<and> m = 159))"

fun all_space :: "string \<Rightarrow> bool" where
  "all_space [] = True"
| "all_space (c # cs) =
     (if ascii_space c then all_space cs
      else if c = CHR 0xC2 then
        (case cs of
           d # r \<Rightarrow> (d = CHR 0x85 \<or> d = CHR 0xA0) \<and> all_space r
         | [] \<Rightarrow> False)
      else if c = CHR 0xE1 then
        (case cs of
           d # e # r \<Rightarrow> d = CHR 0x9A \<and> e = CHR 0x80 \<and> all_space r
         | _ \<Rightarrow> False)
      else if c = CHR 0xE2 then
        (case cs of
           d # e # r \<Rightarrow> general_punct_space d e \<and> all_space r
         | _ \<Rightarrow> False)
      else if c = CHR 0xE3 then
        (case cs of
           d # e # r \<Rightarrow> d = CHR 0x80 \<and> e = CHR 0x80 \<and> all_space r
         | _ \<Rightarrow> False)
      else False)"

definition isspace :: "string \<Rightarrow> bool" where
  "isspace it = (it \<noteq> [] \<and> all_space it)"

subsection \<open>Preamble and content filter\<close>

text \<open>
  Line 13: \<^verbatim>\<open>preample = list(itertools.takewhile(lambda it: it.startswith("//"), files["csbench.h"]))\<close>,
  as a function of the header's lines.
\<close>

definition preample :: "string list \<Rightarrow> string list" where
  "preample header = takeWhile (\<lambda>it. startswith it ''//'') header"

text \<open>Line 16, the first statement of \<^verbatim>\<open>make_core_contents\<close>.\<close>

definition drop_leading_comments :: "string list \<Rightarrow> string list" where
  "drop_leading_comments lines = dropWhile (\<lambda>it. startswith it ''//'') lines"

text \<open>Lines 17 to 20: four \<^verbatim>\<open>filter\<close> passes, one for each marker.\<close>

definition drop_markers :: "string list \<Rightarrow> string list" where
  \<open>drop_markers lines =
     (let lines = filter (\<lambda>it. \<not> contains ''#include "csbench.h"'' it) lines;
          lines = filter (\<lambda>it. \<not> contains ''#ifndef CSBENCH_H'' it) lines;
          lines = filter (\<lambda>it. \<not> contains ''#define CSBENCH_H'' it) lines;
          lines = filter (\<lambda>it. \<not> contains ''#endif // CSBENCH_H'' it) lines
      in lines)\<close>

text \<open>
  Lines 21 and 22: \<^verbatim>\<open>while lines[0].isspace(): lines = lines[1:]\<close>. The test reads
  \<^verbatim>\<open>lines[0]\<close> before anything else, so an empty list raises \<^verbatim>\<open>IndexError\<close>.
\<close>

fun strip_leading :: "string list \<Rightarrow> error + string list" where
  "strip_leading [] = Inl IndexError"
| "strip_leading (l # ls) = (if isspace l then strip_leading ls else Inr (l # ls))"

text \<open>
  Lines 23 and 24: \<^verbatim>\<open>while lines[-1].isspace(): lines = lines[:-1]\<close>, with the same
  \<^verbatim>\<open>IndexError\<close> on an empty list.
\<close>

function strip_trailing :: "string list \<Rightarrow> error + string list" where
  "strip_trailing lines =
     (if lines = [] then Inl IndexError
      else if isspace (last lines) then strip_trailing (butlast lines)
      else Inr lines)"
  by pat_completeness auto
termination
  by (relation "measure length") auto

declare strip_trailing.simps [simp del]

definition make_core_contents :: "string list \<Rightarrow> error + string list" where
  "make_core_contents lines =
     (case strip_leading (drop_markers (drop_leading_comments lines)) of
        Inl e \<Rightarrow> Inl e
      | Inr lines \<Rightarrow> strip_trailing lines)"

subsection \<open>Loader\<close>

text \<open>
  The file system is a map from path to contents; a path that is not in the map does not
  exist. Other failures of \<^verbatim>\<open>open\<close> (permissions, a directory) are outside the model.
\<close>

type_synonym filesystem = "string \<rightharpoonup> string"

definition file_names :: "string list" where
  "file_names = [''csbench.h'', ''csbench.c'', ''csbench_plot.c'', ''csbench_perf.c'',
                 ''csbench_utils.c'', ''csbench_run.c'', ''csbench_report.c'',
                 ''csbench_analyze.c'']"

text \<open>
  Text mode with the default \<^verbatim>\<open>newline=None\<close>: on reading, \<^verbatim>\<open>\r\n\<close> and a lone
  \<^verbatim>\<open>\r\<close> become \<^verbatim>\<open>\n\<close>.
\<close>

fun universal_newlines :: "string \<Rightarrow> string" where
  "universal_newlines [] = []"
| "universal_newlines [c] = [if c = CHR 0x0D then CHR ''\<newline>'' else c]"
| "universal_newlines (c # d # r) =
     (if c = CHR 0x0D then
        CHR ''\<newline>'' #
          (if d = CHR ''\<newline>'' then universal_newlines r else universal_newlines (d # r))
      else c # universal_newlines (d # r))"

text \<open>
  \<^verbatim>\<open>f.readlines()\<close>: every line keeps its terminator; the last line has none when the
  text does not end with one. \<open>cur\<close> is the line being read.
\<close>

fun split_lines :: "string \<Rightarrow> string \<Rightarrow> string list" where
  "split_lines cur [] = (if cur = [] then [] else [cur])"
| "split_lines cur (c # cs) =
     (if c = CHR ''\<newline>'' then (cur @ [c]) # split_lines [] cs
      else split_lines (cur @ [c]) cs)"

definition readlines :: "string \<Rightarrow> string list" where
  "readlines text = split_lines [] (universal_newlines text)"

text \<open>
  The strict UTF-8 decoder behind \<^verbatim>\<open>encoding="utf8"\<close>: it accepts the encodings of
  U+0000..U+D7FF and U+E000..U+10FFFF in their shortest form and nothing else (no stray or
  missing continuation byte, no overlong form, no surrogate, no sequence cut off by the
  end of the file).
\<close>

definition continuation :: "char \<Rightarrow> bool" where
  "continuation c = (128 \<le> (of_char c :: nat) \<and> (of_char c :: nat) \<le> 191)"

definition second_of_three :: "char \<Rightarrow> char \<Rightarrow> bool" where
  \<comment> \<open>the byte after a lead byte 0xE0..0xEF\<close>
  "second_of_three c d =
     (if c = CHR 0xE0 then 160 \<le> (of_char d :: nat) \<and> (of_char d :: nat) \<le> 191
      else if c = CHR 0xED then 128 \<le> (of_char d :: nat) \<and> (of_char d :: nat) \<le> 159
      else continuation d)"

definition second_of_four :: "char \<Rightarrow> char \<Rightarrow> bool" where
  \<comment> \<open>the byte after a lead byte 0xF0..0xF4\<close>
  "second_of_four c d =
     (if c = CHR 0xF0 then 144 \<le> (of_char d :: nat) \<and> (of_char d :: nat) \<le> 191
      else if c = CHR 0xF4 then 128 \<le> (of_char d :: nat) \<and> (of_char d :: nat) \<le> 143
      else continuation d)"

fun valid_utf8 :: "string \<Rightarrow> bool" where
  "valid_utf8 [] = True"
| "valid_utf8 (c # cs) =
     (if (of_char c :: nat) < 128 then valid_utf8 cs
      else if 194 \<le> (of_char c :: nat) \<and> (of_char c :: nat) \<le> 223 then
        (case cs of
           d # r \<Rightarrow> continuation d \<and> valid_utf8 r
         | _ \<Rightarrow> False)
      else if 224 \<le> (of_char c :: nat) \<and> (of_char c :: nat) \<le> 239 then
        (case cs of
           d # e # r \<Rightarrow> second_of_three c d \<and> continuation e \<and> valid_utf8 r
         | _ \<Rightarrow> False)
      else if 240 \<le> (of_char c :: nat) \<and> (of_char c :: nat) \<le> 244 then
        (case cs of
           d # e # f # r \<Rightarrow>
             second_of_four c d \<and> continuation e \<and> continuation f \<and> valid_utf8 r
         | _ \<Rightarrow> False)
      else False)"

text \<open>
  Lines 8 to 11: the loop over \<^verbatim>\<open>file_names\<close> that fills the dictionary
  \<^verbatim>\<open>files\<close>. For each name in turn, \<^verbatim>\<open>open\<close> raises
  \<^verbatim>\<open>FileNotFoundError\<close> when the file does not exist, and \<^verbatim>\<open>f.readlines()\<close>,
  which reads the file to its end, raises \<^verbatim>\<open>UnicodeDecodeError\<close> when its contents
  are not valid UTF-8; either ends the run before the next name is opened.
\<close>

fun load_files ::
  "filesystem \<Rightarrow> string list \<Rightarrow> (string \<rightharpoonup> string list) \<Rightarrow> error + (string \<rightharpoonup> string list)"
where
  "load_files fs [] files = Inr files"
| "load_files fs (name # names) files =
     (case fs name of
        None \<Rightarrow> Inl (FileNotFoundError name)
      | Some contents \<Rightarrow>
          if valid_utf8 contents
          then load_files fs names (files(name \<mapsto> readlines contents))
          else Inl UnicodeDecodeError)"

subsection \<open>Assembler and writer\<close>

text \<open>\<^verbatim>\<open>files[name]\<close>\<close>

definition getitem :: "(string \<rightharpoonup> string list) \<Rightarrow> string \<Rightarrow> error + string list" where
  "getitem files name = (case files name of None \<Rightarrow> Inl (KeyError name) | Some v \<Rightarrow> Inr v)"

text \<open>\<^verbatim>\<open>make_core_contents(files[name])\<close>\<close>

definition core_of :: "(string \<rightharpoonup> string list) \<Rightarrow> string \<Rightarrow> error + string list" where
  "core_of files name = and_then (getitem files name) make_core_contents"

text \<open>
  Lines 13 and 27 to 42: the preamble is computed first, then the eight cores from left to
  right, with the one-line list \<^verbatim>\<open>["\n"]\<close> between two cores.
\<close>

definition amalgamated_source :: "(string \<rightharpoonup> string list) \<Rightarrow> error + string list" where
  "amalgamated_source files =
     and_then (getitem files ''csbench.h'') (\<lambda>header.
     and_then (core_of files ''csbench.h'') (\<lambda>c1.
     and_then (core_of files ''csbench_run.c'') (\<lambda>c2.
     and_then (core_of files ''csbench_analyze.c'') (\<lambda>c3.
     and_then (core_of files ''csbench_report.c'') (\<lambda>c4.
     and_then (core_of files ''csbench_utils.c'') (\<lambda>c5.
     and_then (core_of files ''csbench_plot.c'') (\<lambda>c6.
     and_then (core_of files ''csbench_perf.c'') (\<lambda>c7.
     and_then (core_of files ''csbench.c'') (\<lambda>c8.
       Inr (preample header
            @ c1 @ [''\<newline>'']
            @ c2 @ [''\<newline>'']
            @ c3 @ [''\<newline>'']
            @ c4 @ [''\<newline>'']
            @ c5 @ [''\<newline>'']
            @ c6 @ [''\<newline>'']
            @ c7 @ [''\<newline>'']
            @ c8))))))))))"

text \<open>
  The whole script. Lines 44 and 45 open the destination for writing, which creates or
  truncates it, and write \<^verbatim>\<open>"".join(amalgamated_source)\<close>; they are reached only when
  nothing before them raised. The result is the outcome and the file system afterwards.
  (On writing, \<^verbatim>\<open>\n\<close> is kept as it is, as on POSIX systems.)
\<close>

definition output_name :: string where
  "output_name = ''csbench_amalgamated.c''"

definition output_text :: "filesystem \<Rightarrow> error + string" where
  "output_text fs =
     and_then (load_files fs file_names Map.empty) (\<lambda>files.
     and_then (amalgamated_source files) (\<lambda>src. Inr (concat src)))"

definition run :: "filesystem \<Rightarrow> (error + unit) \<times> filesystem" where
  "run fs =
     (case output_text fs of
        Inl e \<Rightarrow> (Inl e, fs)
      | Inr text \<Rightarrow> (Inr (), fs(output_name \<mapsto> text)))"

section \<open>Notions used in the properties\<close>

text \<open>What the two while statements of lines 21 to 24 leave of a list when they do not raise.\<close>

definition trim_blank :: "string list \<Rightarrow> string list" where
  "trim_blank xs = rev (dropWhile isspace (rev (dropWhile isspace xs)))"

text \<open>
  The order in which lines 27 to 42 name the files (it differs from the order of
  \<open>file_names\<close>, in which they are read).
\<close>

definition merge_order :: "string list" where
  "merge_order = [''csbench.h'', ''csbench_run.c'', ''csbench_analyze.c'', ''csbench_report.c'',
                  ''csbench_utils.c'', ''csbench_plot.c'', ''csbench_perf.c'', ''csbench.c'']"

text \<open>Blocks with the one-line list \<^verbatim>\<open>["\n"]\<close> between two neighbours.\<close>

fun join_blocks :: "string list list \<Rightarrow> string list" where
  "join_blocks [] = []"
| "join_blocks [b] = b"
| "join_blocks (b # b' # bs) = b @ [''\<newline>''] @ join_blocks (b' # bs)"

text \<open>
  Example inputs. In \<open>scenario_B_files\<close> every file is one line without a terminator,
  so that the first two cores are the blocks of scenario B.
\<close>

definition scenario_B_files :: "string \<rightharpoonup> string list" where
  "scenario_B_files = map_of
     [(''csbench.h'', [''a;'']), (''csbench.c'', [''h;'']), (''csbench_plot.c'', [''f;'']),
      (''csbench_perf.c'', [''g;'']), (''csbench_utils.c'', [''e;'']),
      (''csbench_run.c'', [''b;'']), (''csbench_report.c'', [''d;'']),
      (''csbench_analyze.c'', [''c;''])]"

definition example_files :: "string \<rightharpoonup> string list" where
  \<open>example_files = map_of
     [(''csbench.h'', [''// lic\<newline>'', ''#ifndef CSBENCH_H\<newline>'', ''#define CSBENCH_H\<newline>'',
                       ''a;\<newline>'', ''#endif // CSBENCH_H\<newline>'']),
      (''csbench.c'', [''// lic\<newline>'', ''#include "csbench.h"\<newline>'', ''\<newline>'', ''h;\<newline>'', ''\<newline>'']),
      (''csbench_plot.c'', [''f;\<newline>'']),
      (''csbench_perf.c'', [''g;\<newline>'']), (''csbench_utils.c'', [''e;\<newline>'', ''\<newline>'', ''\<newline>'', ''e2;\<newline>'']),
      (''csbench_run.c'', [''// lic\<newline>'', ''b;\<newline>'']), (''csbench_report.c'', [''d;\<newline>'']),
      (''csbench_analyze.c'', [''c;\<newline>''])]\<close>


definition example_output :: "string list" where
  "example_output =
     [''// lic\<newline>'', ''a;\<newline>'', ''\<newline>'', ''b;\<newline>'', ''\<newline>'', ''c;\<newline>'', ''\<newline>'', ''d;\<newline>'', ''\<newline>'',
      ''e;\<newline>'', ''\<newline>'', ''\<newline>'', ''e2;\<newline>'', ''\<newline>'', ''f;\<newline>'', ''\<newline>'', ''g;\<newline>'', ''\<newline>'', ''h;\<newline>'']"

text \<open>
  File systems: one with all eight files and an older output, one with the same eight
  files and different surroundings, one where a file is missing.
\<close>

definition example_fs :: filesystem where
  \<open>example_fs = map_of
     [(''csbench.h'', ''// lic\<newline>#ifndef CSBENCH_H\<newline>#define CSBENCH_H\<newline>a;\<newline>#endif // CSBENCH_H\<newline>''),
      (''csbench.c'', ''// lic\<newline>#include "csbench.h"\<newline>\<newline>h;\<newline>''),
      (''csbench_plot.c'', ''f;\<newline>''),
      (''csbench_perf.c'', ''g;\<newline>''),
      (''csbench_utils.c'', ''e;\<newline>''),
      (''csbench_run.c'', ''// lic\<newline>b;\<newline>''),
      (''csbench_report.c'', ''d;\<newline>''),
      (''csbench_analyze.c'', ''c;''),
      (''csbench_amalgamated.c'', ''old\<newline>'')]\<close>

definition example_fs_other :: filesystem where
  "example_fs_other = (example_fs(''csbench_amalgamated.c'' := None))(''README.md'' \<mapsto> ''csbench'')"

definition example_fs_missing :: filesystem where
  "example_fs_missing = example_fs(''csbench_perf.c'' := None)"

text \<open>A header that is the single byte 0xFF, and no \<^verbatim>\<open>csbench.c\<close>.\<close>

definition example_fs_undecodable :: filesystem where
  "example_fs_undecodable = (example_fs(''csbench.h'' \<mapsto> [CHR 0xFF]))(''csbench.c'' := None)"

section \<open>Properties\<close>

subsection \<open>Preamble\<close>

text \<open>
  C4: for every list of lines, the preamble (the longest leading run of lines that start
  with \<^verbatim>\<open>//\<close>) followed by the lines that the content filter keeps after dropping its
  leading comment run is the original list.
\<close>

theorem preample_append_rest:
  "preample lines @ drop_leading_comments lines = lines"
  by (simp add: preample_def drop_leading_comments_def)

subsection \<open>Content filter\<close>

lemma and_then_Inr_iff: "and_then m f = Inr y \<longleftrightarrow> (\<exists>v. m = Inr v \<and> f v = Inr y)"
  by (cases m) (simp_all add: and_then_def)

lemma strip_leading_eq:
  "strip_leading xs =
     (if dropWhile isspace xs = [] then Inl IndexError else Inr (dropWhile isspace xs))"
  by (induction xs) simp_all

lemma rev_last_butlast: "xs \<noteq> [] \<Longrightarrow> rev xs = last xs # rev (butlast xs)"
  by (induction xs rule: rev_induct) simp_all

lemma strip_trailing_eq:
  "strip_trailing xs =
     (if dropWhile isspace (rev xs) = [] then Inl IndexError
      else Inr (rev (dropWhile isspace (rev xs))))"
proof (induction xs rule: strip_trailing.induct)
  case (1 lines)
  show ?case
  proof (cases "lines = []")
    case True
    then show ?thesis by (simp add: strip_trailing.simps)
  next
    case False
    then have split: "rev lines = last lines # rev (butlast lines)"
      by (rule rev_last_butlast)
    show ?thesis
    proof (cases "isspace (last lines)")
      case True
      then have "dropWhile isspace (rev lines) = dropWhile isspace (rev (butlast lines))"
        unfolding split by simp
      moreover from False True have "strip_trailing lines = strip_trailing (butlast lines)"
        by (subst strip_trailing.simps) simp
      ultimately show ?thesis
        using 1 [OF False True] by simp
    next
      case blank: False
      then have "dropWhile isspace (rev lines) = rev lines"
        unfolding split by simp
      moreover from False blank have "strip_trailing lines = Inr lines"
        by (subst strip_trailing.simps) simp
      ultimately show ?thesis
        using False by simp
    qed
  qed
qed

lemma make_core_contents_eq:
  "make_core_contents xs =
     (if list_all isspace (drop_markers (drop_leading_comments xs)) then Inl IndexError
      else Inr (trim_blank (drop_markers (drop_leading_comments xs))))"
proof -
  define t where "t = dropWhile isspace (drop_markers (drop_leading_comments xs))"
  show ?thesis
  proof (cases "t = []")
    case True
    then show ?thesis
      by (simp add: make_core_contents_def strip_leading_eq t_def list_all_iff)
  next
    case False
    then have "\<not> isspace (hd t)"
      unfolding t_def by (rule hd_dropWhile)
    with False have ne: "dropWhile isspace (rev t) \<noteq> []"
      by simp (metis hd_in_set)
    from False have "\<not> list_all isspace (drop_markers (drop_leading_comments xs))"
      by (simp add: t_def list_all_iff)
    with False ne show ?thesis
      unfolding make_core_contents_def strip_leading_eq strip_trailing_eq trim_blank_def
        t_def [symmetric]
      by simp
  qed
qed


lemma startswith_iff: "startswith it p \<longleftrightarrow> (\<exists>post. it = p @ post)"
  by (induction it p rule: startswith.induct) auto

lemma contains_iff: "contains sub it \<longleftrightarrow> (\<exists>pre post. it = pre @ sub @ post)"
proof (induction it)
  case Nil
  then show ?case by auto
next
  case (Cons c cs)
  show ?case
  proof
    assume "contains sub (c # cs)"
    then consider "startswith (c # cs) sub" | "contains sub cs" by auto
    then show "\<exists>pre post. c # cs = pre @ sub @ post"
    proof cases
      case 1
      then obtain post where "c # cs = sub @ post" by (auto simp: startswith_iff)
      then have "c # cs = [] @ sub @ post" by simp
      then show ?thesis by blast
    next
      case 2
      with Cons obtain pre post where "cs = pre @ sub @ post" by blast
      then have "c # cs = (c # pre) @ sub @ post" by simp
      then show ?thesis by blast
    qed
  next
    assume "\<exists>pre post. c # cs = pre @ sub @ post"
    then obtain pre post where eq: "c # cs = pre @ sub @ post" by blast
    show "contains sub (c # cs)"
    proof (cases pre)
      case Nil
      with eq have "startswith (c # cs) sub" by (auto simp: startswith_iff)
      then show ?thesis by simp
    next
      case (Cons d pre')
      with eq have "cs = pre' @ sub @ post" by simp
      with Cons.IH have "contains sub cs" by blast
      then show ?thesis by simp
    qed
  qed
qed

lemma drop_markers_eq:
  \<open>drop_markers xs =
     filter (\<lambda>it. \<not> contains ''#include "csbench.h"'' it \<and> \<not> contains ''#ifndef CSBENCH_H'' it \<and>
                  \<not> contains ''#define CSBENCH_H'' it \<and> \<not> contains ''#endif // CSBENCH_H'' it) xs\<close>
  unfolding drop_markers_def Let_def filter_filter
  by (rule filter_cong) auto

lemma set_trim_blank: "set (trim_blank xs) \<subseteq> set xs"
  unfolding trim_blank_def
  by (metis set_dropWhileD set_rev subsetI)

lemma make_core_contents_InrD:
  assumes "make_core_contents xs = Inr core"
  shows "core = trim_blank (drop_markers (drop_leading_comments xs))"
    and "\<not> list_all isspace (drop_markers (drop_leading_comments xs))"
  using assms by (auto simp: make_core_contents_eq split: if_splits)

lemma trim_blank_ends:
  assumes "\<not> list_all isspace xs"
  shows "trim_blank xs \<noteq> []" and "\<not> isspace (hd (trim_blank xs))"
    and "\<not> isspace (last (trim_blank xs))"
proof -
  define t where "t = dropWhile isspace xs"
  from assms have t: "t \<noteq> []" by (simp add: t_def list_all_iff)
  then have hd_t: "\<not> isspace (hd t)" unfolding t_def by (rule hd_dropWhile)
  with t have r: "dropWhile isspace (rev t) \<noteq> []"
    by simp (metis hd_in_set)
  then show ne: "trim_blank xs \<noteq> []"
    by (simp add: trim_blank_def t_def)
  from r have "\<not> isspace (hd (dropWhile isspace (rev t)))" by (rule hd_dropWhile)
  with r show "\<not> isspace (last (trim_blank xs))"
    by (simp add: trim_blank_def t_def last_rev)
  obtain ws where ws: "t = trim_blank xs @ ws"
    by (metis trim_blank_def t_def takeWhile_dropWhile_id rev_append rev_rev_ident)
  with ne have "hd (trim_blank xs) = hd t" by simp
  with hd_t show "\<not> isspace (hd (trim_blank xs))" by simp
qed

lemma trim_blank_fixed:
  assumes "xs \<noteq> []" "\<not> isspace (hd xs)" "\<not> isspace (last xs)"
  shows "trim_blank xs = xs"
proof -
  from assms have "dropWhile isspace xs = xs" by (cases xs) simp_all
  moreover from assms have "dropWhile isspace (rev xs) = rev xs"
    by (cases "rev xs") (simp_all add: last_rev [symmetric] del: last_rev)
  ultimately show ?thesis by (simp add: trim_blank_def)
qed


text \<open>
  C1: a fragment whose lines are empty or all blank after the comment run and the marker
  lines are dropped should still be filtered without failing. The code does the opposite:
  on every such fragment \<open>make_core_contents\<close> raises \<^verbatim>\<open>IndexError\<close>, because
  the test of the first loop reads \<^verbatim>\<open>lines[0]\<close> of an empty list.
\<close>

theorem blank_fragment_raises_IndexError:
  assumes "list_all isspace (drop_markers (drop_leading_comments lines))"
  shows "make_core_contents lines = Inl IndexError"
  using assms by (simp add: make_core_contents_eq)

theorem blank_fragment_raises_IndexError_witness:
  "list_all isspace (drop_markers (drop_leading_comments [''// banner\<newline>'', ''\<newline>'']))
   \<and> make_core_contents [''// banner\<newline>'', ''\<newline>''] = Inl IndexError"
proof -
  have h: "list_all isspace (drop_markers (drop_leading_comments [''// banner\<newline>'', ''\<newline>'']))"
    by code_simp
  from h blank_fragment_raises_IndexError [OF h] show ?thesis by simp
qed



text \<open>
  C3 as stated: filtering twice would give what filtering once gives. A comment line that
  follows a blank line survives the first pass, becomes the first line of the core, and is
  dropped by the second pass.
\<close>

theorem idempotence_counterexample:
  "and_then (make_core_contents
       [''// banner\<newline>'', ''\<newline>'', ''// helper\<newline>'', ''int x;\<newline>''])
     make_core_contents
   \<noteq> make_core_contents
       [''// banner\<newline>'', ''\<newline>'', ''// helper\<newline>'', ''int x;\<newline>'']"
  by code_simp

lemma drop_markers_fixed:
  assumes "set ys \<subseteq> set (drop_markers xs)"
  shows "drop_markers ys = ys"
proof -
  from assms show ?thesis
    unfolding drop_markers_eq by (auto simp: filter_id_conv)
qed

text \<open>
  C3, amended: when the filter succeeds and the core it returns does not begin with a
  line that starts with \<^verbatim>\<open>//\<close>, filtering that core again returns it unchanged.
\<close>

theorem make_core_contents_fixed_point:
  assumes "make_core_contents lines = Inr core"
    and "\<not> startswith (hd core) ''//''"
  shows "make_core_contents core = Inr core"
proof -
  define d where "d = drop_markers (drop_leading_comments lines)"
  from assms(1) have core: "core = trim_blank d" and nb: "\<not> list_all isspace d"
    unfolding d_def by (rule make_core_contents_InrD)+
  from nb have ne: "core \<noteq> []" and h: "\<not> isspace (hd core)" and l: "\<not> isspace (last core)"
    unfolding core by (rule trim_blank_ends)+
  from ne assms(2) have "drop_leading_comments core = core"
    by (cases core) (simp_all add: drop_leading_comments_def)
  moreover have "drop_markers core = core"
  proof (rule drop_markers_fixed)
    show "set core \<subseteq> set (drop_markers (drop_leading_comments lines))"
      using set_trim_blank [of d] by (simp add: core d_def)
  qed
  moreover from ne h l have "trim_blank core = core" by (rule trim_blank_fixed)
  moreover from ne h have "\<not> list_all isspace core"
    by (cases core) simp_all
  ultimately show ?thesis by (simp add: make_core_contents_eq)
qed

theorem make_core_contents_fixed_point_witness:
  "make_core_contents [''// banner\<newline>'', ''\<newline>'', ''int x;\<newline>'', ''\<newline>'']
     = Inr [''int x;\<newline>'']
   \<and> \<not> startswith (hd [''int x;\<newline>'']) ''//''
   \<and> make_core_contents [''int x;\<newline>''] = Inr [''int x;\<newline>'']"
proof -
  have a: "make_core_contents [''// banner\<newline>'', ''\<newline>'', ''int x;\<newline>'', ''\<newline>'']
     = Inr [''int x;\<newline>'']" by code_simp
  have b: "\<not> startswith (hd [''int x;\<newline>'']) ''//''" by code_simp
  from a b make_core_contents_fixed_point [OF a b] show ?thesis by simp
qed

text \<open>
  C9: a line that contains one of the four markers anywhere, with any text before and
  after it, is not in the filtered core.
\<close>

theorem marker_lines_removed:
  assumes "make_core_contents lines = Inr core"
    and \<open>marker \<in> {''#include "csbench.h"'', ''#ifndef CSBENCH_H'', ''#define CSBENCH_H'',
                   ''#endif // CSBENCH_H''}\<close>
  shows "pre @ marker @ post \<notin> set core"
proof
  assume "pre @ marker @ post \<in> set core"
  with assms(1) have "pre @ marker @ post \<in> set (drop_markers (drop_leading_comments lines))"
    using set_trim_blank make_core_contents_InrD(1) by blast
  then have "\<not> contains marker (pre @ marker @ post)"
    using assms(2) unfolding drop_markers_eq by auto
  then show False by (auto simp: contains_iff)
qed

theorem marker_lines_removed_witness:
  \<open>make_core_contents [''int x;\<newline>'', ''  #include "csbench.h" // self\<newline>'', ''int y;\<newline>'']
     = Inr [''int x;\<newline>'', ''int y;\<newline>'']
   \<and> ''#include "csbench.h"'' \<in> {''#include "csbench.h"'', ''#ifndef CSBENCH_H'',
         ''#define CSBENCH_H'', ''#endif // CSBENCH_H''}
   \<and> ''  '' @ ''#include "csbench.h"'' @ '' // self\<newline>''
       \<notin> set [''int x;\<newline>'', ''int y;\<newline>'']\<close>
proof -
  have a: \<open>make_core_contents [''int x;\<newline>'', ''  #include "csbench.h" // self\<newline>'', ''int y;\<newline>'']
     = Inr [''int x;\<newline>'', ''int y;\<newline>'']\<close> by code_simp
  have b: \<open>''#include "csbench.h"'' \<in> {''#include "csbench.h"'', ''#ifndef CSBENCH_H'',
         ''#define CSBENCH_H'', ''#endif // CSBENCH_H''}\<close> by simp
  from a b marker_lines_removed [OF a b, of "''  ''" "'' // self\<newline>''"] show ?thesis
    by blast
qed

subsection \<open>Assembler\<close>

lemma amalgamated_source_InrD:
  assumes "amalgamated_source files = Inr out"
  shows "\<exists>header c1 c2 c3 c4 c5 c6 c7 c8.
           getitem files ''csbench.h'' = Inr header
         \<and> core_of files ''csbench.h'' = Inr c1
         \<and> core_of files ''csbench_run.c'' = Inr c2
         \<and> core_of files ''csbench_analyze.c'' = Inr c3
         \<and> core_of files ''csbench_report.c'' = Inr c4
         \<and> core_of files ''csbench_utils.c'' = Inr c5
         \<and> core_of files ''csbench_plot.c'' = Inr c6
         \<and> core_of files ''csbench_perf.c'' = Inr c7
         \<and> core_of files ''csbench.c'' = Inr c8
         \<and> out = preample header
                 @ c1 @ [''\<newline>''] @ c2 @ [''\<newline>''] @ c3 @ [''\<newline>''] @ c4 @ [''\<newline>'']
                 @ c5 @ [''\<newline>''] @ c6 @ [''\<newline>''] @ c7 @ [''\<newline>''] @ c8"
  using assms unfolding amalgamated_source_def and_then_Inr_iff by blast


lemma core_of_Inr_ends:
  assumes "core_of files name = Inr c"
  shows "c \<noteq> [] \<and> \<not> isspace (hd c) \<and> \<not> isspace (last c)"
proof -
  from assms obtain xs where "make_core_contents xs = Inr c"
    by (auto simp: core_of_def and_then_Inr_iff)
  then have "c = trim_blank (drop_markers (drop_leading_comments xs))"
    and "\<not> list_all isspace (drop_markers (drop_leading_comments xs))"
    by (rule make_core_contents_InrD)+
  then show ?thesis by (simp add: trim_blank_ends)
qed

lemma join_blocks_Cons: "bs \<noteq> [] \<Longrightarrow> join_blocks (b # bs) = b @ [''\<newline>''] @ join_blocks bs"
  by (cases bs) simp_all

lemma join_blocks_append:
  "xs \<noteq> [] \<Longrightarrow> ys \<noteq> [] \<Longrightarrow> join_blocks (xs @ ys) = join_blocks xs @ [''\<newline>''] @ join_blocks ys"
proof (induction xs)
  case Nil
  then show ?case by simp
next
  case (Cons b bs)
  then show ?case by (cases "bs = []") (simp_all add: join_blocks_Cons)
qed

lemma join_blocks_last:
  "bs \<noteq> [] \<Longrightarrow> last bs \<noteq> [] \<Longrightarrow> join_blocks bs \<noteq> [] \<and> last (join_blocks bs) = last (last bs)"
proof (induction bs)
  case Nil
  then show ?case by simp
next
  case (Cons b bs)
  then show ?case by (cases "bs = []") (simp_all add: join_blocks_Cons)
qed

lemma join_blocks_hd:
  "bs \<noteq> [] \<Longrightarrow> hd bs \<noteq> [] \<Longrightarrow> join_blocks bs \<noteq> [] \<and> hd (join_blocks bs) = hd (hd bs)"
  by (cases bs) (simp_all add: join_blocks_Cons, case_tac list, simp_all)

lemma length_join_blocks:
  "bs \<noteq> [] \<Longrightarrow> length (join_blocks bs) + 1 = sum_list (map length bs) + length bs"
proof (induction bs)
  case Nil
  then show ?case by simp
next
  case (Cons b bs)
  then show ?case by (cases "bs = []") (simp_all add: join_blocks_Cons)
qed

lemma amalgamated_source_blocks:
  assumes "amalgamated_source files = Inr out"
  shows "\<exists>header cs. getitem files ''csbench.h'' = Inr header
           \<and> map (core_of files) merge_order = map Inr cs
           \<and> out = preample header @ join_blocks cs"
proof -
  from amalgamated_source_InrD [OF assms]
  obtain header c1 c2 c3 c4 c5 c6 c7 c8 where
    "getitem files ''csbench.h'' = Inr header"
    "map (core_of files) merge_order = map Inr [c1, c2, c3, c4, c5, c6, c7, c8]"
    "out = preample header @ join_blocks [c1, c2, c3, c4, c5, c6, c7, c8]"
    unfolding merge_order_def by auto
  then show ?thesis by blast
qed

lemma cores_ends:
  assumes "map (core_of files) merge_order = map Inr cs"
  shows "length cs = 8" and "\<forall>c\<in>set cs. c \<noteq> [] \<and> \<not> isspace (hd c) \<and> \<not> isspace (last c)"
proof -
  from assms have "length (map (core_of files) merge_order) = length (map Inr cs :: (error + string list) list)"
    by simp
  then show "length cs = 8" by (simp add: merge_order_def)
  show "\<forall>c\<in>set cs. c \<noteq> [] \<and> \<not> isspace (hd c) \<and> \<not> isspace (last c)"
  proof
    fix c assume "c \<in> set cs"
    then have "Inr c \<in> set (map (core_of files) merge_order)"
      unfolding assms by simp
    then obtain name where "core_of files name = Inr c" by auto
    then show "c \<noteq> [] \<and> \<not> isspace (hd c) \<and> \<not> isspace (last c)"
      by (rule core_of_Inr_ends)
  qed
qed

lemma take_length_prefix: "xs = a @ b \<Longrightarrow> take (length a) xs = a"
  by simp

text \<open>
  C5 as stated: two filtered blocks \<^verbatim>\<open>["a;"]\<close> and \<^verbatim>\<open>["b;"]\<close> would be assembled
  to the preamble followed by \<^verbatim>\<open>["a;", "", "b;"]\<close>. The script always assembles eight
  cores, and the line it puts between two of them is \<^verbatim>\<open>"\n"\<close>, not the empty string.
\<close>

theorem scenario_B_counterexample:
  "core_of scenario_B_files ''csbench.h'' = Inr [''a;'']
   \<and> core_of scenario_B_files ''csbench_run.c'' = Inr [''b;'']
   \<and> getitem scenario_B_files ''csbench.h'' = Inr [''a;'']
   \<and> amalgamated_source scenario_B_files \<noteq> Inr (preample [''a;''] @ [''a;'', [], ''b;''])
   \<and> map_sum id (take 3) (amalgamated_source scenario_B_files) = Inr [''a;'', ''\<newline>'', ''b;'']"
  by code_simp

text \<open>
  C5, amended: whenever the assembly succeeds, the output is the preamble, immediately
  followed by the first core, and the eight cores are in merge order with exactly one line
  \<^verbatim>\<open>"\n"\<close> between two consecutive cores; in particular the output begins with the
  preamble, the first core, one such line and the second core.
\<close>

theorem assembler_layout:
  assumes "amalgamated_source files = Inr out"
  shows "\<exists>header c1 c2 c3 c4 c5 c6 c7 c8.
           getitem files ''csbench.h'' = Inr header
         \<and> core_of files ''csbench.h'' = Inr c1
         \<and> core_of files ''csbench_run.c'' = Inr c2
         \<and> core_of files ''csbench_analyze.c'' = Inr c3
         \<and> core_of files ''csbench_report.c'' = Inr c4
         \<and> core_of files ''csbench_utils.c'' = Inr c5
         \<and> core_of files ''csbench_plot.c'' = Inr c6
         \<and> core_of files ''csbench_perf.c'' = Inr c7
         \<and> core_of files ''csbench.c'' = Inr c8
         \<and> out = preample header
                 @ c1 @ [''\<newline>''] @ c2 @ [''\<newline>''] @ c3 @ [''\<newline>''] @ c4 @ [''\<newline>'']
                 @ c5 @ [''\<newline>''] @ c6 @ [''\<newline>''] @ c7 @ [''\<newline>''] @ c8
         \<and> take (length (preample header) + length c1 + 1 + length c2) out
             = preample header @ c1 @ [''\<newline>''] @ c2"
proof -
  from amalgamated_source_InrD [OF assms]
  obtain header c1 c2 c3 c4 c5 c6 c7 c8 where
    h: "getitem files ''csbench.h'' = Inr header"
      "core_of files ''csbench.h'' = Inr c1"
      "core_of files ''csbench_run.c'' = Inr c2"
      "core_of files ''csbench_analyze.c'' = Inr c3"
      "core_of files ''csbench_report.c'' = Inr c4"
      "core_of files ''csbench_utils.c'' = Inr c5"
      "core_of files ''csbench_plot.c'' = Inr c6"
      "core_of files ''csbench_perf.c'' = Inr c7"
      "core_of files ''csbench.c'' = Inr c8"
    and out: "out = preample header
                 @ c1 @ [''\<newline>''] @ c2 @ [''\<newline>''] @ c3 @ [''\<newline>''] @ c4 @ [''\<newline>'']
                 @ c5 @ [''\<newline>''] @ c6 @ [''\<newline>''] @ c7 @ [''\<newline>''] @ c8"
    by blast
  have "out = (preample header @ c1 @ [''\<newline>''] @ c2)
            @ ([''\<newline>''] @ c3 @ [''\<newline>''] @ c4 @ [''\<newline>'']
               @ c5 @ [''\<newline>''] @ c6 @ [''\<newline>''] @ c7 @ [''\<newline>''] @ c8)"
    unfolding out by simp
  then have "take (length (preample header @ c1 @ [''\<newline>''] @ c2)) out
      = preample header @ c1 @ [''\<newline>''] @ c2"
    by (rule take_length_prefix)
  then have "take (length (preample header) + length c1 + 1 + length c2) out
      = preample header @ c1 @ [''\<newline>''] @ c2"
    by (simp add: add.assoc)
  with h out show ?thesis by blast
qed

lemma isspace_newline: "isspace ''\<newline>''"
  by (simp add: isspace_def ascii_space_def)

lemma amalgamated_source_blocks_last:
  assumes "amalgamated_source files = Inr out"
  shows "\<exists>header cs. getitem files ''csbench.h'' = Inr header
           \<and> map (core_of files) merge_order = map Inr cs
           \<and> core_of files ''csbench.c'' = Inr (last cs)
           \<and> out = preample header @ join_blocks cs"
proof -
  from amalgamated_source_InrD [OF assms]
  obtain header c1 c2 c3 c4 c5 c6 c7 c8 where
    "getitem files ''csbench.h'' = Inr header"
    "map (core_of files) merge_order = map Inr [c1, c2, c3, c4, c5, c6, c7, c8]"
    "core_of files ''csbench.c'' = Inr (last [c1, c2, c3, c4, c5, c6, c7, c8])"
    "out = preample header @ join_blocks [c1, c2, c3, c4, c5, c6, c7, c8]"
    unfolding merge_order_def by auto
  then show ?thesis by blast
qed

text \<open>
  C6: whenever the assembly succeeds (so every filter succeeded), no core is empty or
  begins or ends with a blank line, and each of the seven separators stands between two
  lines that are not blank: the last line of the core before it and the first line of the
  core after it. So no separator is next to another separator, and two consecutive blank
  lines of the output lie inside one core.
\<close>

theorem separators_between_nonblank_lines:
  assumes "amalgamated_source files = Inr out"
  shows "\<exists>header cs.
           getitem files ''csbench.h'' = Inr header
         \<and> map (core_of files) merge_order = map Inr cs
         \<and> (\<forall>c\<in>set cs. c \<noteq> [] \<and> \<not> isspace (hd c) \<and> \<not> isspace (last c))
         \<and> (\<forall>i\<in>{1..<8}. \<exists>before after.
                before = preample header @ join_blocks (take i cs)
              \<and> after = join_blocks (drop i cs)
              \<and> out = before @ [''\<newline>''] @ after
              \<and> before \<noteq> [] \<and> \<not> isspace (last before)
              \<and> after \<noteq> [] \<and> \<not> isspace (hd after))"
proof -
  from amalgamated_source_blocks [OF assms] obtain header cs where
    header: "getitem files ''csbench.h'' = Inr header"
    and cs: "map (core_of files) merge_order = map Inr cs"
    and out: "out = preample header @ join_blocks cs"
    by blast
  from cs have len: "length cs = 8"
    and ends: "\<forall>c\<in>set cs. c \<noteq> [] \<and> \<not> isspace (hd c) \<and> \<not> isspace (last c)"
    by (rule cores_ends)+
  have "\<exists>before after.
          before = preample header @ join_blocks (take i cs)
        \<and> after = join_blocks (drop i cs)
        \<and> out = before @ [''\<newline>''] @ after
        \<and> before \<noteq> [] \<and> \<not> isspace (last before)
        \<and> after \<noteq> [] \<and> \<not> isspace (hd after)" if i: "i \<in> {1..<8}" for i
  proof -
    from i len have t: "take i cs \<noteq> []" and d: "drop i cs \<noteq> []" by auto
    from t have "last (take i cs) \<in> set cs"
      by (meson in_set_takeD last_in_set)
    with ends have lt: "last (take i cs) \<noteq> []" "\<not> isspace (last (last (take i cs)))"
      by blast+
    from d have "hd (drop i cs) \<in> set cs"
      by (meson in_set_dropD hd_in_set)
    with ends have hd: "hd (drop i cs) \<noteq> []" "\<not> isspace (hd (hd (drop i cs)))"
      by blast+
    from t lt(1) have jl: "join_blocks (take i cs) \<noteq> []"
      "last (join_blocks (take i cs)) = last (last (take i cs))"
      by (simp_all add: join_blocks_last)
    from d hd(1) have jh: "join_blocks (drop i cs) \<noteq> []"
      "hd (join_blocks (drop i cs)) = hd (hd (drop i cs))"
      by (simp_all add: join_blocks_hd)
    have "join_blocks cs = join_blocks (take i cs @ drop i cs)" by simp
    also from t d have "\<dots> = join_blocks (take i cs) @ [''\<newline>''] @ join_blocks (drop i cs)"
      by (rule join_blocks_append)
    finally have "out = (preample header @ join_blocks (take i cs)) @ [''\<newline>'']
        @ join_blocks (drop i cs)"
      by (simp add: out)
    with jl jh lt(2) hd(2) show ?thesis by simp
  qed
  with header cs ends show ?thesis by blast
qed

text \<open>
  C10: whenever the assembly succeeds, the output is the preamble followed by the eight
  cores in merge order with seven separator lines in all, one between two consecutive
  cores; it ends with the last line of the core of \<^verbatim>\<open>csbench.c\<close>, which is not blank,
  so nothing follows the last core.
\<close>

theorem no_trailing_separator:
  assumes "amalgamated_source files = Inr out"
  shows "\<exists>header cs.
           getitem files ''csbench.h'' = Inr header
         \<and> map (core_of files) merge_order = map Inr cs
         \<and> core_of files ''csbench.c'' = Inr (last cs)
         \<and> out = preample header @ join_blocks cs
         \<and> length out = length (preample header) + sum_list (map length cs) + 7
         \<and> out \<noteq> []
         \<and> last out = last (last cs)
         \<and> \<not> isspace (last out)
         \<and> last out \<noteq> ''\<newline>''
         \<and> concat out = concat (butlast out) @ last (last cs)"
proof -
  from amalgamated_source_blocks_last [OF assms] obtain header cs where
    header: "getitem files ''csbench.h'' = Inr header"
    and cs: "map (core_of files) merge_order = map Inr cs"
    and final: "core_of files ''csbench.c'' = Inr (last cs)"
    and out: "out = preample header @ join_blocks cs"
    by blast
  from cs have len: "length cs = 8"
    and ends: "\<forall>c\<in>set cs. c \<noteq> [] \<and> \<not> isspace (hd c) \<and> \<not> isspace (last c)"
    by (rule cores_ends)+
  from len have ne: "cs \<noteq> []" by auto
  then have "last cs \<in> set cs" by simp
  with ends have l: "last cs \<noteq> []" "\<not> isspace (last (last cs))" by blast+
  from ne l(1) have j: "join_blocks cs \<noteq> []" "last (join_blocks cs) = last (last cs)"
    by (simp_all add: join_blocks_last)
  from j have o: "out \<noteq> []" "last out = last (last cs)" by (simp_all add: out)
  from ne len have "length (join_blocks cs) = sum_list (map length cs) + 7"
    using length_join_blocks [of cs] by simp
  then have n: "length out = length (preample header) + sum_list (map length cs) + 7"
    by (simp add: out)
  from o l(2) have b: "\<not> isspace (last out)" by simp
  then have s: "last out \<noteq> ''\<newline>''" using isspace_newline by metis
  from o have "out = butlast out @ [last (last cs)]" by (metis append_butlast_last_id)
  then have "concat out = concat (butlast out @ [last (last cs)])" by simp
  then have c: "concat out = concat (butlast out) @ last (last cs)" by simp
  from header cs final out n o b s c show ?thesis by blast
qed

lemma example_amalgamated: "amalgamated_source example_files = Inr example_output"
  by code_simp

theorem assembler_layout_witness:
  "amalgamated_source example_files = Inr example_output
   \<and> (\<exists>header c1 c2 c3 c4 c5 c6 c7 c8.
           getitem example_files ''csbench.h'' = Inr header
         \<and> core_of example_files ''csbench.h'' = Inr c1
         \<and> core_of example_files ''csbench_run.c'' = Inr c2
         \<and> core_of example_files ''csbench_analyze.c'' = Inr c3
         \<and> core_of example_files ''csbench_report.c'' = Inr c4
         \<and> core_of example_files ''csbench_utils.c'' = Inr c5
         \<and> core_of example_files ''csbench_plot.c'' = Inr c6
         \<and> core_of example_files ''csbench_perf.c'' = Inr c7
         \<and> core_of example_files ''csbench.c'' = Inr c8
         \<and> example_output = preample header
                 @ c1 @ [''\<newline>''] @ c2 @ [''\<newline>''] @ c3 @ [''\<newline>''] @ c4 @ [''\<newline>'']
                 @ c5 @ [''\<newline>''] @ c6 @ [''\<newline>''] @ c7 @ [''\<newline>''] @ c8
         \<and> take (length (preample header) + length c1 + 1 + length c2) example_output
             = preample header @ c1 @ [''\<newline>''] @ c2)"
  using assembler_layout [OF example_amalgamated] example_amalgamated by (rule conjI [rotated])

theorem separators_between_nonblank_lines_witness:
  "amalgamated_source example_files = Inr example_output
   \<and> (\<exists>header cs.
           getitem example_files ''csbench.h'' = Inr header
         \<and> map (core_of example_files) merge_order = map Inr cs
         \<and> (\<forall>c\<in>set cs. c \<noteq> [] \<and> \<not> isspace (hd c) \<and> \<not> isspace (last c))
         \<and> (\<forall>i\<in>{1..<8}. \<exists>before after.
                before = preample header @ join_blocks (take i cs)
              \<and> after = join_blocks (drop i cs)
              \<and> example_output = before @ [''\<newline>''] @ after
              \<and> before \<noteq> [] \<and> \<not> isspace (last before)
              \<and> after \<noteq> [] \<and> \<not> isspace (hd after)))"
  using separators_between_nonblank_lines [OF example_amalgamated] example_amalgamated
  by (rule conjI [rotated])

theorem no_trailing_separator_witness:
  "amalgamated_source example_files = Inr example_output
   \<and> (\<exists>header cs.
           getitem example_files ''csbench.h'' = Inr header
         \<and> map (core_of example_files) merge_order = map Inr cs
         \<and> core_of example_files ''csbench.c'' = Inr (last cs)
         \<and> example_output = preample header @ join_blocks cs
         \<and> length example_output = length (preample header) + sum_list (map length cs) + 7
         \<and> example_output \<noteq> []
         \<and> last example_output = last (last cs)
         \<and> \<not> isspace (last example_output)
         \<and> last example_output \<noteq> ''\<newline>''
         \<and> concat example_output = concat (butlast example_output) @ last (last cs))"
  using no_trailing_separator [OF example_amalgamated] example_amalgamated
  by (rule conjI [rotated])

subsection \<open>Loader and writer\<close>

lemma concat_split_lines: "concat (split_lines cur s) = cur @ s"
  by (induction s arbitrary: cur) simp_all

lemma concat_readlines: "concat (readlines contents) = universal_newlines contents"
  by (simp add: readlines_def concat_split_lines)

lemma load_files_missing:
  assumes "\<exists>name\<in>set names. fs name = None"
    and "\<forall>name\<in>set names. case fs name of None \<Rightarrow> True | Some contents \<Rightarrow> valid_utf8 contents"
  shows "\<exists>missing\<in>set names. fs missing = None
           \<and> load_files fs names files = Inl (FileNotFoundError missing)"
  using assms
proof (induction names arbitrary: files)
  case Nil
  then show ?case by simp
next
  case (Cons name names)
  show ?case
  proof (cases "fs name")
    case None
    then show ?thesis by simp
  next
    case (Some contents)
    with Cons.prems have valid: "valid_utf8 contents"
      and absent: "\<exists>n\<in>set names. fs n = None"
      and rest: "\<forall>n\<in>set names. case fs n of None \<Rightarrow> True | Some contents \<Rightarrow> valid_utf8 contents"
      by auto
    from Cons.IH [OF absent rest, of "files(name \<mapsto> readlines contents)"]
    obtain missing where "missing \<in> set names" "fs missing = None"
      "load_files fs names (files(name \<mapsto> readlines contents)) = Inl (FileNotFoundError missing)"
      by blast
    with Some valid show ?thesis
      by (intro bexI [of _ missing]) simp_all
  qed
qed

lemma load_files_missing_raises:
  assumes "\<exists>name\<in>set names. fs name = None"
  shows "\<exists>e. load_files fs names files = Inl e"
  using assms
proof (induction names arbitrary: files)
  case Nil
  then show ?case by simp
next
  case (Cons name names)
  show ?case
  proof (cases "fs name")
    case None
    then show ?thesis by simp
  next
    case (Some contents)
    with Cons.prems have "\<exists>n\<in>set names. fs n = None" by auto
    from Cons.IH [OF this, of "files(name \<mapsto> readlines contents)"]
    obtain e where "load_files fs names (files(name \<mapsto> readlines contents)) = Inl e"
      by blast
    with Some show ?thesis
      by (cases "valid_utf8 contents") simp_all
  qed
qed

text \<open>
  Whatever the other files hold, a missing file ends the run with an exception and the
  file system as it was.
\<close>

lemma missing_fragment_never_writes:
  assumes "name \<in> set file_names" and "fs name = None"
  shows "\<exists>e. output_text fs = Inl e \<and> run fs = (Inl e, fs)"
proof -
  from assms have "\<exists>n\<in>set file_names. fs n = None" by blast
  from load_files_missing_raises [OF this, of Map.empty] obtain e where
    "load_files fs file_names Map.empty = Inl e"
    by blast
  then show ?thesis
    by (simp add: output_text_def run_def and_then_def)
qed

text \<open>
  The loader stops at the first name whose file is missing or does not decode: with an
  undecodable header the missing \<^verbatim>\<open>csbench.c\<close> is never looked for.
\<close>

lemma undecodable_header_raises_first:
  "example_fs_undecodable ''csbench.c'' = None
   \<and> output_text example_fs_undecodable = Inl UnicodeDecodeError"
  by code_simp

lemma load_files_cong:
  assumes "\<forall>name\<in>set names. fs name = fs' name"
  shows "load_files fs names files = load_files fs' names files"
  using assms
proof (induction names arbitrary: files)
  case Nil
  then show ?case by simp
next
  case (Cons name names)
  then show ?case by (cases "fs' name") simp_all
qed

text \<open>
  C7: when one of the eight files does not exist and the files that exist are UTF-8 text,
  the run ends with \<^verbatim>\<open>FileNotFoundError\<close> for a missing file and the file system is
  left as it was: the destination is neither created nor changed.
\<close>

theorem missing_fragment_aborts:
  assumes "name \<in> set file_names" and "fs name = None"
    and "\<forall>n\<in>set file_names. case fs n of None \<Rightarrow> True | Some contents \<Rightarrow> valid_utf8 contents"
  shows "\<exists>missing\<in>set file_names. fs missing = None
           \<and> output_text fs = Inl (FileNotFoundError missing)
           \<and> run fs = (Inl (FileNotFoundError missing), fs)"
proof -
  from assms(1,2) have "\<exists>n\<in>set file_names. fs n = None" by blast
  from load_files_missing [OF this assms(3), of Map.empty] obtain missing where
    "missing \<in> set file_names" "fs missing = None"
    "load_files fs file_names Map.empty = Inl (FileNotFoundError missing)"
    by blast
  then show ?thesis
    by (auto simp: output_text_def run_def and_then_def)
qed

theorem missing_fragment_aborts_witness:
  "''csbench_perf.c'' \<in> set file_names
   \<and> example_fs_missing ''csbench_perf.c'' = None
   \<and> list_all (\<lambda>n. case example_fs_missing n of None \<Rightarrow> True | Some contents \<Rightarrow> valid_utf8 contents)
        file_names
   \<and> (\<exists>missing\<in>set file_names. example_fs_missing missing = None
           \<and> output_text example_fs_missing = Inl (FileNotFoundError missing)
           \<and> run example_fs_missing = (Inl (FileNotFoundError missing), example_fs_missing))"
proof -
  have a: "''csbench_perf.c'' \<in> set file_names" by (simp add: file_names_def)
  have b: "example_fs_missing ''csbench_perf.c'' = None" by (simp add: example_fs_missing_def)
  have c: "list_all (\<lambda>n. case example_fs_missing n of None \<Rightarrow> True | Some contents \<Rightarrow> valid_utf8 contents)
        file_names"
    by code_simp
  then have h: "\<forall>n\<in>set file_names.
      case example_fs_missing n of None \<Rightarrow> True | Some contents \<Rightarrow> valid_utf8 contents"
    by (simp only: list_all_iff)
  from a b c missing_fragment_aborts [of "''csbench_perf.c''" example_fs_missing, OF a b h]
  show ?thesis by blast
qed

text \<open>
  C8: two runs on file systems that agree on the eight input files have the same outcome:
  the same exception, or the same text written to the destination, whatever else the file
  systems hold (the previous contents of the destination included).
\<close>

theorem output_depends_only_on_fragments:
  assumes "\<forall>name\<in>set file_names. fs name = fs' name"
  shows "output_text fs = output_text fs'
       \<and> fst (run fs) = fst (run fs')
       \<and> (case output_text fs of
            Inl e \<Rightarrow> snd (run fs) = fs \<and> snd (run fs') = fs'
          | Inr text \<Rightarrow> snd (run fs) output_name = Some text
                       \<and> snd (run fs') output_name = Some text)"
proof -
  from assms have "load_files fs file_names Map.empty = load_files fs' file_names Map.empty"
    by (rule load_files_cong)
  then have "output_text fs = output_text fs'"
    by (simp add: output_text_def)
  then show ?thesis
    by (simp add: run_def split: sum.splits)
qed

theorem output_depends_only_on_fragments_witness:
  "list_all (\<lambda>name. example_fs name = example_fs_other name) file_names
   \<and> example_fs output_name \<noteq> example_fs_other output_name
   \<and> output_text example_fs
       = Inr ''// lic\<newline>a;\<newline>\<newline>b;\<newline>\<newline>c;\<newline>d;\<newline>\<newline>e;\<newline>\<newline>f;\<newline>\<newline>g;\<newline>\<newline>h;\<newline>''
   \<and> output_text example_fs = output_text example_fs_other
   \<and> fst (run example_fs) = fst (run example_fs_other)
   \<and> (case output_text example_fs of
        Inl e \<Rightarrow> snd (run example_fs) = example_fs \<and> snd (run example_fs_other) = example_fs_other
      | Inr text \<Rightarrow> snd (run example_fs) output_name = Some text
                   \<and> snd (run example_fs_other) output_name = Some text)"
proof -
  have a: "list_all (\<lambda>name. example_fs name = example_fs_other name) file_names"
    by (simp add: file_names_def example_fs_other_def example_fs_def)
  then have h: "\<forall>name\<in>set file_names. example_fs name = example_fs_other name"
    by (simp add: list_all_iff)
  have b: "example_fs output_name \<noteq> example_fs_other output_name"
    by (simp add: output_name_def example_fs_other_def example_fs_def)
  have c: "output_text example_fs
       = Inr ''// lic\<newline>a;\<newline>\<newline>b;\<newline>\<newline>c;\<newline>d;\<newline>\<newline>e;\<newline>\<newline>f;\<newline>\<newline>g;\<newline>\<newline>h;\<newline>''"
    by code_simp
  from a b c output_depends_only_on_fragments [OF h] show ?thesis by blast
qed

end
